theory Spec2Isabelle
  imports Main "HOL-Library.Char_ord" "HOL-Library.List_Lexorder"
begin

unbundle bit_operations_syntax

section \<open>JavaScript values\<close>

text \<open>
  The style engine (the \<open>NextStyle\<close> class with its \<open>globalStore\<close>, together with
  \<open>stableStringify\<close>, \<open>createHashName\<close>, \<open>toKebabCase\<close>, \<open>mergeMedia\<close>,
  \<open>serializeNested\<close> and \<open>RelationBuilder\<close>) works on plain JavaScript values.

  \<^item> A string is a \<open>string\<close>: the code units of the text, here restricted to the code
    units below 256; \<open>charCodeAt\<close> is \<open>of_char\<close>.
  \<^item> A number is kept as its canonical decimal text, the result of the language's
    Number-to-String conversion (\<open>JNum ''0.5''\<close>, \<open>JNum ''1024''\<close>, \<open>JNum ''NaN''\<close>): the engine
    never calculates with a number, it only interpolates it into text, serialises it and
    tests it for truthiness.
  \<^item> An object is the list of its own enumerable properties in enumeration order, which
    for the property names of a style description (none of them an array index) is the
    insertion order. The keys of an object are distinct.
\<close>

datatype jsvalue =
    JUndefined
  | JNull
  | JBool bool
  | JNum string
  | JStr string
  | JArr "jsvalue list"
  | JObj "(string \<times> jsvalue) list"

type_synonym jsobject = "(string \<times> jsvalue) list"

text \<open>\<open>Array.prototype.join\<close> on a list of strings.\<close>

fun join :: "string \<Rightarrow> string list \<Rightarrow> string" where
  "join sep [] = []"
| "join sep [x] = x"
| "join sep (x # y # ys) = x @ sep @ join sep (y # ys)"

text \<open>\<open>BigInt.prototype.toString(36)\<close> and the decimal text of an array index.\<close>

definition digitChar :: "nat \<Rightarrow> char" where
  "digitChar d = ''0123456789abcdefghijklmnopqrstuvwxyz'' ! d"

fun toString36 :: "nat \<Rightarrow> string" where
  "toString36 n = (if n < 36 then [digitChar n] else toString36 (n div 36) @ [digitChar (n mod 36)])"

fun toString10 :: "nat \<Rightarrow> string" where
  "toString10 n = (if n < 10 then [digitChar n] else toString10 (n div 10) @ [digitChar (n mod 10)])"

declare toString36.simps [simp del] toString10.simps [simp del]

text \<open>
  The own enumerable properties of a value, as \<open>for ... in\<close> and \<open>Object.keys\<close> list them:
  those of an object, the indexed elements of an array, the indexed characters of a
  string, nothing for the other primitives. \<open>getProp v k\<close> is \<open>v[k]\<close> for a key \<open>k\<close> that is
  an own enumerable key or one of the reserved keys of a style description.
\<close>

definition indexKeys :: "nat \<Rightarrow> string list" where
  "indexKeys n = map toString10 [0..<n]"

fun ownProps :: "jsvalue \<Rightarrow> (string \<times> jsvalue) list" where
  "ownProps (JObj kvs) = kvs"
| "ownProps (JArr xs) = zip (indexKeys (length xs)) xs"
| "ownProps (JStr s) = zip (indexKeys (length s)) (map (\<lambda>c. JStr [c]) s)"
| "ownProps _ = []"

definition ownKeys :: "jsvalue \<Rightarrow> string list" where
  "ownKeys v = map fst (ownProps v)"

definition getProp :: "jsvalue \<Rightarrow> string \<Rightarrow> jsvalue" where
  "getProp v k = (case map_of (ownProps v) k of Some x \<Rightarrow> x | None \<Rightarrow> JUndefined)"

text \<open>Truthiness (\<open>!value\<close>), \<open>typeof value === "object"\<close> and \<open>value == null\<close>.\<close>

fun truthy :: "jsvalue \<Rightarrow> bool" where
  "truthy JUndefined = False"
| "truthy JNull = False"
| "truthy (JBool b) = b"
| "truthy (JNum s) = (s \<noteq> ''0'' \<and> s \<noteq> ''NaN'')"
| "truthy (JStr s) = (s \<noteq> [])"
| "truthy (JArr xs) = True"
| "truthy (JObj kvs) = True"

fun typeofObject :: "jsvalue \<Rightarrow> bool" where
  "typeofObject JNull = True"
| "typeofObject (JArr xs) = True"
| "typeofObject (JObj kvs) = True"
| "typeofObject _ = False"

fun isNullish :: "jsvalue \<Rightarrow> bool" where
  "isNullish JUndefined = True"
| "isNullish JNull = True"
| "isNullish _ = False"

text \<open>The text a template literal interpolates for a value (\<open>ToString\<close>).\<close>

fun toStr :: "jsvalue \<Rightarrow> string" where
  "toStr JUndefined = ''undefined''"
| "toStr JNull = ''null''"
| "toStr (JBool b) = (if b then ''true'' else ''false'')"
| "toStr (JNum s) = s"
| "toStr (JStr s) = s"
| "toStr (JArr xs) = join '','' (map (\<lambda>x. if isNullish x then [] else toStr x) xs)"
| "toStr (JObj kvs) = ''[object Object]''"

section \<open>Canonical serializer\<close>

text \<open>
  \<open>JSON.stringify\<close> on the primitives: a string is quoted, with the quote, the backslash
  and the control characters escaped; a number that is not finite becomes \<open>null\<close>.
\<close>

definition dquote :: char where
  "dquote = CHR 0x22"

definition backslash :: char where
  "backslash = CHR 0x5C"

definition hexChar :: "nat \<Rightarrow> char" where
  "hexChar d = ''0123456789abcdef'' ! d"

definition jsonEscape :: "char \<Rightarrow> string" where
  "jsonEscape c =
     (let n = (of_char c :: nat) in
      if c = dquote then [backslash, dquote]
      else if c = backslash then [backslash, backslash]
      else if n = 8 then [backslash, CHR ''b'']
      else if n = 9 then [backslash, CHR ''t'']
      else if n = 10 then [backslash, CHR ''n'']
      else if n = 12 then [backslash, CHR ''f'']
      else if n = 13 then [backslash, CHR ''r'']
      else if n < 32 then [backslash, CHR ''u'', CHR ''0'', CHR ''0'', hexChar (n div 16), hexChar (n mod 16)]
      else [c])"

definition jsonString :: "string \<Rightarrow> string" where
  "jsonString s = [dquote] @ concat (map jsonEscape s) @ [dquote]"

definition jsonNumber :: "string \<Rightarrow> string" where
  "jsonNumber s = (if s = ''NaN'' \<or> s = ''Infinity'' \<or> s = ''-Infinity'' then ''null'' else s)"

text \<open>
  \<open>stableStringify\<close>. The result \<open>None\<close> is JavaScript's \<open>undefined\<close>, which
  \<open>JSON.stringify(undefined)\<close> returns; \<open>join\<close> renders it as the empty text and a
  template literal as \<open>undefined\<close>. The keys of an object are sorted by code units
  (\<open>Object.keys( value ).sort()\<close>) and written without escaping.
\<close>

function stableStringify :: "jsvalue \<Rightarrow> string option" where
  "stableStringify JUndefined = None"
| "stableStringify JNull = Some ''null''"
| "stableStringify (JBool b) = Some (if b then ''true'' else ''false'')"
| "stableStringify (JNum s) = Some (jsonNumber s)"
| "stableStringify (JStr s) = Some (jsonString s)"
| "stableStringify (JArr xs) =
     Some (''['' @ join '','' (map (\<lambda>x. case stableStringify x of None \<Rightarrow> [] | Some t \<Rightarrow> t) xs) @ '']'')"
| "stableStringify (JObj kvs) =
     Some (''{'' @ join '','' (map (\<lambda>k. [dquote] @ k @ [dquote] @ '':'' @
                (case stableStringify (getProp (JObj kvs) k) of None \<Rightarrow> ''undefined'' | Some t \<Rightarrow> t))
              (sort (map fst kvs))) @ ''}'')"
  by pat_completeness auto
termination
proof (relation "measure size")
  show "wf (measure (size :: jsvalue \<Rightarrow> nat))" by simp
next
  fix xs :: "jsvalue list" and x
  assume "x \<in> set xs"
  then have "size x \<le> size_list size xs" by (simp add: size_list_estimation')
  then show "(x, JArr xs) \<in> measure size" by simp
next
  fix kvs :: "(string \<times> jsvalue) list" and k
  assume "k \<in> set (sort (map fst kvs))"
  then have k: "k \<in> fst ` set kvs" by simp
  have "k \<in> fst ` set kvs \<Longrightarrow> size (getProp (JObj kvs) k) < size (JObj kvs)"
  proof (induction kvs)
    case Nil
    then show ?case by simp
  next
    case (Cons p ps)
    obtain a b where p: "p = (a, b)" by (cases p)
    show ?case
    proof (cases "a = k")
      case True
      then show ?thesis by (simp add: getProp_def p)
    next
      case False
      with Cons.prems p have "k \<in> fst ` set ps" by auto
      from Cons.IH [OF this] False show ?thesis by (simp add: getProp_def p)
    qed
  qed
  with k show "(getProp (JObj kvs) k, JObj kvs) \<in> measure size" by simp
qed

section \<open>Deterministic hasher\<close>

text \<open>
  \<open>createHashName\<close>: the loop over the code units of the seed on unbounded integers
  (\<open>hash ^= code; hash *= prime; hash &= 0xffffffffffffffff\<close>), then
  \<open>hash.toString( 36 ).slice( 0, 9 )\<close>.
\<close>

definition offsetBasis :: nat where
  "offsetBasis = 0xcbf29ce484222325"

definition prime :: nat where
  "prime = 0x100000001b3"

fun hashLoop :: "nat \<Rightarrow> string \<Rightarrow> nat" where
  "hashLoop hash [] = hash"
| "hashLoop hash (c # cs) = hashLoop (((hash XOR of_char c) * prime) AND 0xffffffffffffffff) cs"

definition createHashName :: "string \<Rightarrow> string" where
  "createHashName seed = take 9 (toString36 (hashLoop offsetBasis seed))"

section \<open>Rule text compiler\<close>

text \<open>\<open>toKebabCase\<close>: every letter \<open>A\<close> to \<open>Z\<close> becomes a hyphen and its lower-case letter.\<close>

definition isUpper :: "char \<Rightarrow> bool" where
  "isUpper c = (65 \<le> (of_char c :: nat) \<and> (of_char c :: nat) \<le> 90)"

definition toLowerCase :: "char \<Rightarrow> char" where
  "toLowerCase c = ''abcdefghijklmnopqrstuvwxyz'' ! ((of_char c :: nat) - 65)"

definition toKebabCase :: "string \<Rightarrow> string" where
  "toKebabCase prop = concat (map (\<lambda>m. if isUpper m then [CHR ''-'', toLowerCase m] else [m]) prop)"

definition MEDIA_MAP :: "(string \<times> string) list" where
  "MEDIA_MAP =
     [(''_sm'', ''(min-width:640px)''),
      (''_md'', ''(min-width:768px)''),
      (''_lg'', ''(min-width:1024px)''),
      (''_xl'', ''(min-width:1280px)''),
      (''_xxl'', ''(min-width:1536px)'')]"

definition pseudoKeys :: "string list" where
  "pseudoKeys = [''_hover'', ''_focus'', ''_active'']"

text \<open>An absent media condition is \<open>None\<close>; \<open>!parent\<close> also holds of the empty text.\<close>

fun mergeMedia :: "string option \<Rightarrow> string option \<Rightarrow> string option" where
  "mergeMedia None current = current"
| "mergeMedia (Some p) None = (if p = [] then None else Some p)"
| "mergeMedia (Some p) (Some c) =
     (if p = [] then Some c else if c = [] then Some p else Some (p @ '' and '' @ c))"

definition startsWith :: "string \<Rightarrow> string \<Rightarrow> bool" where
  "startsWith s p = (take (length p) s = p)"

text \<open>The first loop of \<open>serializeNested\<close>: the declarations of the style's own keys.\<close>

definition declarationsOf :: "jsvalue \<Rightarrow> string list" where
  "declarationsOf style =
     concat (map (\<lambda>key. let value = getProp style key in
                    if isNullish value \<or> typeofObject value \<or> startsWith key ''_'' then []
                    else [toKebabCase key @ '':'' @ toStr value])
              (ownKeys style))"

definition wrapRule :: "string \<Rightarrow> string option \<Rightarrow> string list \<Rightarrow> string" where
  "wrapRule selector media declarations =
     (if declarations = [] then []
      else let rule = selector @ ''{'' @ join '';'' declarations @ ''}'' in
           case media of
             None \<Rightarrow> rule
           | Some m \<Rightarrow> if m = [] then rule else ''@media '' @ m @ ''{'' @ rule @ ''}'')"

function serializeNested :: "jsvalue \<Rightarrow> string \<Rightarrow> string option \<Rightarrow> string" where
  "serializeNested style selector media =
     wrapRule selector media (declarationsOf style)
     @ concat (map (\<lambda>pseudo.
          if \<not> truthy (getProp style pseudo) then []
          else serializeNested (getProp style pseudo) (selector @ '':'' @ drop 1 pseudo) media)
        pseudoKeys)
     @ concat (map (\<lambda>mediaKey.
          if \<not> truthy (getProp style mediaKey) then []
          else serializeNested (getProp style mediaKey) selector
                 (mergeMedia media (map_of MEDIA_MAP mediaKey)))
        (map fst MEDIA_MAP))"
  by pat_completeness auto
termination
proof -
  have digits: "\<And>n. CHR ''_'' \<notin> set (toString10 n)"
  proof -
    fix n show "CHR ''_'' \<notin> set (toString10 n)"
    proof (induction n rule: toString10.induct)
      case (1 n)
      have d: "\<And>d. d < 10 \<Longrightarrow> digitChar d \<noteq> CHR ''_''"
      proof -
        fix d :: nat assume "d < 10"
        then have "d \<in> {0, 1, 2, 3, 4, 5, 6, 7, 8, 9}" by auto
        then show "digitChar d \<noteq> CHR ''_''" by (auto simp: digitChar_def)
      qed
      show ?case
      proof (cases "n < 10")
        case True
        then show ?thesis using d [of n] by (subst toString10.simps) simp
      next
        case False
        then show ?thesis using 1 d [of "n mod 10"] by (subst toString10.simps) simp
      qed
    qed
  qed
  have index: "\<And>k n. CHR ''_'' \<in> set k \<Longrightarrow> k \<notin> set (indexKeys n)"
    using digits by (auto simp: indexKeys_def)
  have lookup: "\<And>kvs k v. map_of kvs k = Some v \<Longrightarrow> size (v :: jsvalue) < size (JObj kvs)"
  proof -
    fix kvs :: "(string \<times> jsvalue) list" and k v
    show "map_of kvs k = Some v \<Longrightarrow> size v < size (JObj kvs)"
      by (induction kvs) (auto split: if_splits)
  qed
  have smaller: "\<And>style k. CHR ''_'' \<in> set k \<Longrightarrow> truthy (getProp style k)
                   \<Longrightarrow> size (getProp style k) < size style"
  proof -
    fix style k
    assume k: "CHR ''_'' \<in> set k" and t: "truthy (getProp style k)"
    show "size (getProp style k) < size style"
    proof (cases style)
      case (JObj kvs)
      with t lookup [of kvs k] show ?thesis
        by (auto simp: getProp_def split: option.splits)
    next
      case (JArr xs)
      have "map_of (zip (indexKeys (length xs)) xs) k = None"
        using index [OF k, of "length xs"] by (simp add: map_of_zip_is_None indexKeys_def)
      with t JArr show ?thesis by (simp add: getProp_def)
    next
      case (JStr s)
      have "map_of (zip (indexKeys (length s)) (map (\<lambda>c. JStr [c]) s)) k = None"
        using index [OF k, of "length s"] by (simp add: map_of_zip_is_None indexKeys_def)
      with t JStr show ?thesis by (simp add: getProp_def)
    qed (use t in \<open>simp_all add: getProp_def\<close>)
  qed
  show ?thesis
  proof (relation "measure (\<lambda>(style, selector, media). size style)")
    show "wf (measure (\<lambda>(style, selector, media). size (style :: jsvalue)))" by simp
  next
    fix style :: jsvalue and selector :: string and media :: "string option" and pseudo
    assume "pseudo \<in> set pseudoKeys" and "\<not> \<not> truthy (getProp style pseudo)"
    then show "((getProp style pseudo, selector @ '':'' @ drop 1 pseudo, media), style, selector, media)
                 \<in> measure (\<lambda>(style, selector, media). size style)"
      using smaller [of pseudo style] by (auto simp: pseudoKeys_def)
  next
    fix style :: jsvalue and selector :: string and media :: "string option" and mediaKey
    assume "mediaKey \<in> set (map fst MEDIA_MAP)" and "\<not> \<not> truthy (getProp style mediaKey)"
    then show "((getProp style mediaKey, selector, mergeMedia media (map_of MEDIA_MAP mediaKey)),
                 style, selector, media) \<in> measure (\<lambda>(style, selector, media). size style)"
      using smaller [of mediaKey style] by (auto simp: MEDIA_MAP_def)
  qed
qed

section \<open>Scope store\<close>

text \<open>
  A JavaScript \<open>Map\<close> is an association list in insertion order with distinct keys:
  \<open>set\<close> replaces the value of a present key where it stands and appends an absent key,
  \<open>delete\<close> removes the entry, \<open>values()\<close> lists the values in insertion order.
\<close>

definition Map_has :: "'k \<Rightarrow> ('k \<times> 'v) list \<Rightarrow> bool" where
  "Map_has k m = (map_of m k \<noteq> None)"

definition Map_get :: "'k \<Rightarrow> ('k \<times> 'v) list \<Rightarrow> 'v option" where
  "Map_get k m = map_of m k"

fun Map_set :: "'k \<Rightarrow> 'v \<Rightarrow> ('k \<times> 'v) list \<Rightarrow> ('k \<times> 'v) list" where
  "Map_set k v [] = [(k, v)]"
| "Map_set k v (p # ps) = (if fst p = k then (k, v) # ps else p # Map_set k v ps)"

definition Map_delete :: "'k \<Rightarrow> ('k \<times> 'v) list \<Rightarrow> ('k \<times> 'v) list" where
  "Map_delete k m = filter (\<lambda>p. fst p \<noteq> k) m"

definition Map_values :: "('k \<times> 'v) list \<Rightarrow> 'v list" where
  "Map_values m = map snd m"

text \<open>
  The object spread \<open>{ ...prev, ...style }\<close>: a new object that receives the properties
  of \<open>prev\<close> and then those of \<open>style\<close>, each by a property assignment.
\<close>

definition assignAll :: "jsobject \<Rightarrow> jsobject \<Rightarrow> jsobject" where
  "assignAll src target = fold (\<lambda>p acc. Map_set (fst p) (snd p) acc) src target"

definition spread :: "jsobject \<Rightarrow> jsobject \<Rightarrow> jsobject" where
  "spread prev style = assignAll style (assignAll prev [])"

section \<open>Scope facade\<close>

text \<open>
  The state of a \<open>NextStyle\<close> instance. The text transform \<open>postcssTransform\<close> (PostCSS
  with autoprefixer behind a cache keyed by the input text) is outside the engine: it is
  a parameter of every operation that calls it, a function from text to text.
\<close>

record NextStyle =
  rules :: "(string \<times> string) list"
  globalStore :: "(string \<times> jsobject) list"
  prefix :: string

definition newNextStyle :: "string \<Rightarrow> NextStyle" where
  "newNextStyle p = \<lparr> rules = [], globalStore = [], prefix = p \<rparr>"

definition defaultPrefix :: string where
  "defaultPrefix = ''next''"

text \<open>
  A rule key is a kind tag, a colon and an identifier, as the template literals
  \<open>`class:${ className }`\<close>, \<open>`global:${ selector }`\<close>, \<open>`@keyframes:${ name }`\<close> and
  \<open>`@font-face:${ hash }`\<close> build it.
\<close>

definition ruleKey :: "string \<Rightarrow> string \<Rightarrow> string" where
  "ruleKey kind ident = kind @ '':'' @ ident"

text \<open>
  The seed of a hash: \<open>stableStringify\<close> of an object is always a text (see
  \<open>stableStringify_JObj\<close> below), so the branch \<open>None\<close> is never taken.
\<close>

definition seedOf :: "jsobject \<Rightarrow> string" where
  "seedOf obj = (case stableStringify (JObj obj) of Some seed \<Rightarrow> seed | None \<Rightarrow> [])"

definition css :: "(string \<Rightarrow> string) \<Rightarrow> jsobject \<Rightarrow> NextStyle \<Rightarrow> string \<times> NextStyle" where
  "css postcssTransform style st =
     (let seed = seedOf style;
          hash = createHashName seed;
          className = prefix st @ ''_'' @ hash;
          key = ruleKey ''class'' className
      in if \<not> Map_has key (rules st)
         then (let raw = serializeNested (JObj style) (''.'' @ className) None;
                   cssText = postcssTransform raw
               in (className, st\<lparr>rules := Map_set key cssText (rules st)\<rparr>))
         else (className, st))"

definition global :: "(string \<Rightarrow> string) \<Rightarrow> string \<Rightarrow> jsobject \<Rightarrow> NextStyle \<Rightarrow> NextStyle" where
  "global postcssTransform selector style st =
     (let key = ruleKey ''global'' selector;
          prev = (case Map_get key (globalStore st) of Some p \<Rightarrow> p | None \<Rightarrow> []);
          merged = spread prev style;
          store = Map_set key merged (globalStore st);
          raw = serializeNested (JObj merged) selector None;
          cssText = postcssTransform raw;
          kept = (if Map_has key (rules st) then Map_delete key (rules st) else rules st)
      in st\<lparr>rules := Map_set key cssText kept, globalStore := store\<rparr>)"

definition root :: "(string \<Rightarrow> string) \<Rightarrow> jsobject \<Rightarrow> NextStyle \<Rightarrow> NextStyle" where
  "root postcssTransform style st = global postcssTransform '':root'' style st"

definition resetStyle :: "(string \<Rightarrow> string) \<Rightarrow> NextStyle \<Rightarrow> NextStyle" where
  "resetStyle postcssTransform st =
     (let st1 = global postcssTransform ''html,body''
                  [(''maxWidth'', JStr ''100vw''), (''overflowX'', JStr ''hidden'')] st;
          st2 = global postcssTransform ''body''
                  [(''color'', JStr ''black''), (''background'', JStr ''white''),
                   (''MozOsxFontSmoothing'', JStr ''grayscale''),
                   (''WebkitFontSmoothing'', JStr ''antialiased''),
                   (''fontFamily'', JStr ''Arial, Helvetica, sans-serif'')] st1;
          st3 = global postcssTransform ''*,*::before,*::after''
                  [(''margin'', JNum ''0''), (''padding'', JNum ''0''),
                   (''boxSizing'', JStr ''border-box'')] st2
      in global postcssTransform ''a''
           [(''color'', JStr ''inherit''), (''textDecoration'', JStr ''none'')] st3)"

definition frameText :: "jsvalue \<Rightarrow> string \<Rightarrow> string" where
  "frameText frames step =
     (let frame = getProp frames step;
          declarations = map (\<lambda>prop. toKebabCase prop @ '':'' @ toStr (getProp frame prop))
                           (ownKeys frame)
      in step @ ''{ '' @ join '';'' declarations @ '' }'')"

definition keyframes :: "(string \<Rightarrow> string) \<Rightarrow> jsobject \<Rightarrow> NextStyle \<Rightarrow> string \<times> NextStyle" where
  "keyframes postcssTransform frames st =
     (let seed = seedOf frames;
          hash = createHashName seed;
          name = prefix st @ ''_'' @ hash;
          key = ruleKey ''@keyframes'' name
      in if \<not> Map_has key (rules st)
         then (let body = concat (map (frameText (JObj frames)) (ownKeys (JObj frames)));
                   cssText = postcssTransform (''@keyframes '' @ name @ ''{ '' @ body @ '' }'')
               in (name, st\<lparr>rules := Map_set key cssText (rules st)\<rparr>))
         else (name, st))"

definition fontFace :: "(string \<Rightarrow> string) \<Rightarrow> jsobject \<Rightarrow> NextStyle \<Rightarrow> NextStyle" where
  "fontFace postcssTransform font st =
     (let seed = seedOf font;
          hash = createHashName seed;
          key = ruleKey ''@font-face'' hash
      in if \<not> Map_has key (rules st)
         then (let declarations = map (\<lambda>prop. toKebabCase prop @ '':'' @ toStr (getProp (JObj font) prop))
                                      (ownKeys (JObj font));
                   cssText = postcssTransform (''@font-face{ '' @ join '';'' declarations @ '' }'')
               in st\<lparr>rules := Map_set key cssText (rules st)\<rparr>)
         else st)"

definition newline :: char where
  "newline = CHR 0x0A"

definition toTextCss :: "NextStyle \<Rightarrow> string option" where
  "toTextCss st =
     (if length (rules st) = 0 then None
      else Some (foldl (\<lambda>cssText rule. cssText @ rule @ [newline]) [] (Map_values (rules st))))"

section \<open>Relation selector builder\<close>

text \<open>
  A \<open>RelationBuilder\<close> holds the source class and the optional pseudo state; the facade
  it refers to is the state its terminal actions are applied to. \<open>when_source\<close> is the
  facade's \<open>when\<close>.
\<close>

datatype PseudoState = Hover | Focus | Active


record RelationBuilder =
  source :: string
  pseudo :: "PseudoState option"


definition hover :: "RelationBuilder \<Rightarrow> RelationBuilder" where
  "hover b = \<lparr> source = source b, pseudo = Some Hover \<rparr>"









section \<open>The class of \<open>src/index.ts\<close>\<close>








section \<open>Structural equality of descriptions\<close>

text \<open>
  The relation the order-invariance property is stated with, following the words of the
  specification: two values are structurally equal when they are the same primitive,
  arrays of pairwise structurally equal elements in the same order, or objects with the
  same set of keys, in any order, whose values under each key are structurally equal.
\<close>

inductive sameStructure :: "jsvalue \<Rightarrow> jsvalue \<Rightarrow> bool" where
  same_undefined: "sameStructure JUndefined JUndefined"
| same_null: "sameStructure JNull JNull"
| same_bool: "sameStructure (JBool b) (JBool b)"
| same_num: "sameStructure (JNum s) (JNum s)"
| same_str: "sameStructure (JStr s) (JStr s)"
| same_arr: "list_all2 sameStructure xs ys \<Longrightarrow> sameStructure (JArr xs) (JArr ys)"
| same_obj: "distinct (map fst a) \<Longrightarrow> distinct (map fst b)
     \<Longrightarrow> set (map fst a) = set (map fst b)
     \<Longrightarrow> (\<forall>k \<in> set (map fst a). sameStructure (getProp (JObj a) k) (getProp (JObj b) k))
     \<Longrightarrow> sameStructure (JObj a) (JObj b)"

declare serializeNested.simps [simp del]

section \<open>Properties\<close>

text \<open>
  In the theorems below \<open>tr\<close> is the text transform, any function from text to text.
\<close>

subsection \<open>The store operations\<close>

lemma Map_has_keys: "Map_has k m \<longleftrightarrow> k \<in> fst ` set m"
  by (simp add: Map_has_def map_of_eq_None_iff)

lemma Map_set_absent: "k \<notin> fst ` set m \<Longrightarrow> Map_set k v m = m @ [(k, v)]"
  by (induction m) auto


lemma Map_set_keys:
  "map fst (Map_set k v m) = (if k \<in> fst ` set m then map fst m else map fst m @ [k])"
  by (induction m) auto


lemma Map_set_distinct: "distinct (map fst m) \<Longrightarrow> distinct (map fst (Map_set k v m))"
  by (simp add: Map_set_keys)

lemma Map_set_others:
  "filter (\<lambda>p. fst p \<noteq> k) (Map_set k v m) = filter (\<lambda>p. fst p \<noteq> k) m"
  by (induction m) auto

lemma Map_delete_absent: "k \<notin> fst ` set m \<Longrightarrow> Map_delete k m = m"
  by (induction m) (auto simp: Map_delete_def)

lemma Map_delete_keys: "k \<notin> fst ` set (Map_delete k m)"
  by (auto simp: Map_delete_def)


subsection \<open>The object spread\<close>







subsection \<open>The global-rule operation\<close>

lemma global_rules:
  "rules (global tr s d st)
     = Map_delete (ruleKey ''global'' s) (rules st)
       @ [(ruleKey ''global'' s,
           tr (serializeNested
                 (JObj (spread (case Map_get (ruleKey ''global'' s) (globalStore st) of
                                  Some p \<Rightarrow> p | None \<Rightarrow> []) d)) s None))]"
proof -
  let ?key = "ruleKey ''global'' s"
  have kept: "(if Map_has ?key (rules st) then Map_delete ?key (rules st) else rules st)
                = Map_delete ?key (rules st)"
    by (simp add: Map_has_keys Map_delete_absent)
  have absent: "?key \<notin> fst ` set (Map_delete ?key (rules st))"
    by (rule Map_delete_keys)
  show ?thesis
    unfolding global_def Let_def kept
    by (simp add: Map_set_absent [OF absent])
qed

lemma global_globalStore:
  "globalStore (global tr s d st)
     = Map_set (ruleKey ''global'' s)
         (spread (case Map_get (ruleKey ''global'' s) (globalStore st) of Some p \<Rightarrow> p | None \<Rightarrow> []) d)
         (globalStore st)"
  by (simp add: global_def Let_def)

lemma global_prefix: "prefix (global tr s d st) = prefix st"
  by (simp add: global_def Let_def)








lemmas compile_defs =
  serializeNested.simps getProp_def declarationsOf_def ownKeys_def wrapRule_def
  pseudoKeys_def MEDIA_MAP_def startsWith_def toKebabCase_def isUpper_def toLowerCase_def

lemmas store_defs =
  global_def Let_def spread_def assignAll_def Map_has_def Map_get_def Map_delete_def
  newNextStyle_def ruleKey_def





subsection \<open>The export\<close>

lemma foldl_lines:
  "foldl (\<lambda>cssText rule. cssText @ rule @ [newline]) acc xs
     = acc @ concat (map (\<lambda>rule. rule @ [newline]) xs)"
  by (induction xs arbitrary: acc) auto

lemma toTextCss_lines:
  "toTextCss st
     = (if rules st = [] then None
        else Some (concat (map (\<lambda>rule. rule @ [newline]) (map snd (rules st)))))"
  by (simp add: toTextCss_def Map_values_def foldl_lines)

lemma Map_delete_keys_filter:
  "map fst (Map_delete k m) = filter (\<lambda>x. x \<noteq> k) (map fst m)"
  by (induction m) (auto simp: Map_delete_def)

text \<open>
  Claim C2, as amended. Redefining a global selector does not keep the rule's position:
  \<open>global\<close> deletes the stored rule of the key and inserts the new text, so the rule of \<open>s\<close>
  becomes the last one of the store and of the export, after all other rules, which keep
  their texts and their relative order.
\<close>

theorem global_redefinition_moves_last:
  "map fst (rules (global tr s d st))
     = filter (\<lambda>k. k \<noteq> ruleKey ''global'' s) (map fst (rules st)) @ [ruleKey ''global'' s]
   \<and> toTextCss (global tr s d st)
       = Some (concat (map (\<lambda>rule. rule @ [newline])
                        (map snd (Map_delete (ruleKey ''global'' s) (rules st))))
               @ tr (serializeNested
                       (JObj (spread (case Map_get (ruleKey ''global'' s) (globalStore st) of
                                        Some p \<Rightarrow> p | None \<Rightarrow> []) d)) s None)
               @ [newline])
   \<and> ruleKey ''global'' s = ''global:'' @ s"
  by (simp add: global_rules toTextCss_lines Map_delete_keys_filter ruleKey_def)

theorem global_redefinition_moves_last_witness:
  "map fst (rules (global id ''a'' [(''margin'', JNum ''0'')]
                    (global id ''b'' [(''color'', JStr ''blue'')]
                      (global id ''a'' [(''color'', JStr ''red'')] (newNextStyle ''next'')))))
     = [''global:b'', ''global:a'']"
proof -
  have before: "map fst (rules (global id ''b'' [(''color'', JStr ''blue'')]
                      (global id ''a'' [(''color'', JStr ''red'')] (newNextStyle ''next''))))
                  = [''global:a'', ''global:b'']"
    by (simp add: store_defs)
  show ?thesis
    using global_redefinition_moves_last [of id "''a''" "[(''margin'', JNum ''0'')]"
        "global id ''b'' [(''color'', JStr ''blue'')]
           (global id ''a'' [(''color'', JStr ''red'')] (newNextStyle ''next''))"]
    by (simp add: before ruleKey_def)
qed

text \<open>
  Claim C2 as stated fails: after \<open>global("a", {color: "red"})\<close>, \<open>global("b", {color: "blue"})\<close>
  and \<open>global("a", {margin: 0})\<close> the rule of \<open>a\<close>, first of the two before the redefinition,
  is listed after the rule of \<open>b\<close>.
\<close>

theorem global_redefinition_in_place_counterexample:
  "rules (global id ''b'' [(''color'', JStr ''blue'')]
           (global id ''a'' [(''color'', JStr ''red'')] (newNextStyle ''next'')))
     = [(''global:a'', ''a{color:red}''), (''global:b'', ''b{color:blue}'')]
   \<and> rules (global id ''a'' [(''margin'', JNum ''0'')]
             (global id ''b'' [(''color'', JStr ''blue'')]
               (global id ''a'' [(''color'', JStr ''red'')] (newNextStyle ''next''))))
       = [(''global:b'', ''b{color:blue}''), (''global:a'', ''a{color:red;margin:0}'')]
   \<and> toTextCss (global id ''a'' [(''margin'', JNum ''0'')]
                 (global id ''b'' [(''color'', JStr ''blue'')]
                   (global id ''a'' [(''color'', JStr ''red'')] (newNextStyle ''next''))))
       = Some (''b{color:blue}'' @ [newline] @ ''a{color:red;margin:0}'' @ [newline])"
  by (simp add: store_defs compile_defs toTextCss_def Map_values_def)

subsection \<open>The class operation\<close>

lemma css_name: "fst (css tr d st) = prefix st @ ''_'' @ createHashName (seedOf d)"
  by (simp add: css_def Let_def)

lemma css_rules:
  "rules (snd (css tr d st))
     = (if Map_has (ruleKey ''class'' (fst (css tr d st))) (rules st) then rules st
        else rules st @ [(ruleKey ''class'' (fst (css tr d st)),
                          tr (serializeNested (JObj d) (''.'' @ fst (css tr d st)) None))])"
  by (simp add: css_def Let_def Map_set_absent Map_has_keys)

lemma css_frame:
  "globalStore (snd (css tr d st)) = globalStore st \<and> prefix (snd (css tr d st)) = prefix st"
  by (simp add: css_def Let_def)

lemma css_has: "Map_has (ruleKey ''class'' (fst (css tr d st))) (rules (snd (css tr d st)))"
  by (simp add: css_rules) (simp add: Map_has_keys)

lemma css_again: "Map_has (ruleKey ''class'' (prefix st @ ''_'' @ createHashName (seedOf d))) (rules st)
  \<Longrightarrow> css tr d st = (prefix st @ ''_'' @ createHashName (seedOf d), st)"
  by (simp add: css_def Let_def)

lemma count_key_distinct:
  "distinct (map fst m) \<Longrightarrow> k \<in> fst ` set m \<Longrightarrow> length (filter (\<lambda>p. fst p = k) m) = 1"
proof (induction m)
  case Nil
  then show ?case by simp
next
  case (Cons p m)
  show ?case
  proof (cases "fst p = k")
    case True
    have "fst p \<notin> fst ` set m" using Cons.prems by simp
    then have "\<forall>q\<in>set m. fst q \<noteq> k" using True by (metis imageI)
    then have "filter (\<lambda>p. fst p = k) m = []" by (simp add: filter_empty_conv)
    with True show ?thesis by simp
  next
    case False
    with Cons show ?thesis by auto
  qed
qed

lemma css_distinct:
  "distinct (map fst (rules st)) \<Longrightarrow> distinct (map fst (rules (snd (css tr d st))))"
  by (simp add: css_rules Map_has_keys)

text \<open>
  Claim C3. Calling \<open>css(d)\<close> twice on a facade returns the same class name both times;
  the second call leaves the facade as the first call left it and does not depend on the
  text transform (nothing is compiled or transformed again); and the store then holds
  exactly one rule under the key \<open>class:name\<close>.
\<close>

theorem css_twice_one_rule:
  assumes "distinct (map fst (rules st))"
  shows "fst (css tr d (snd (css tr d st))) = fst (css tr d st)
         \<and> snd (css tr d (snd (css tr d st))) = snd (css tr d st)
         \<and> css tr' d (snd (css tr d st)) = css tr d (snd (css tr d st))
         \<and> length (filter (\<lambda>p. fst p = ruleKey ''class'' (fst (css tr d st)))
                     (rules (snd (css tr d st)))) = 1
         \<and> ruleKey ''class'' (fst (css tr d st)) = ''class:'' @ fst (css tr d st)"
proof -
  let ?st1 = "snd (css tr d st)"
  have p: "prefix ?st1 = prefix st" by (simp add: css_frame)
  have has: "Map_has (ruleKey ''class'' (prefix ?st1 @ ''_'' @ createHashName (seedOf d))) (rules ?st1)"
    using css_has [of tr d st] by (simp add: css_name p)
  have again: "\<And>t. css t d ?st1 = (fst (css tr d st), ?st1)"
    using css_again [OF has] by (simp add: css_name p)
  have one: "length (filter (\<lambda>p. fst p = ruleKey ''class'' (fst (css tr d st))) (rules ?st1)) = 1"
    using css_distinct [OF assms, of tr d] css_has [of tr d st]
    by (intro count_key_distinct) (simp_all add: Map_has_keys)
  show ?thesis
    using one by (simp add: again ruleKey_def)
qed

theorem css_twice_one_rule_witness:
  "distinct (map fst (rules (newNextStyle ''next'')))
   \<and> fst (css id [(''color'', JStr ''red'')] (snd (css id [(''color'', JStr ''red'')] (newNextStyle ''next''))))
       = fst (css id [(''color'', JStr ''red'')] (newNextStyle ''next''))
   \<and> length (filter (\<lambda>p. fst p = ruleKey ''class'' (fst (css id [(''color'', JStr ''red'')] (newNextStyle ''next''))))
               (rules (snd (css id [(''color'', JStr ''red'')] (newNextStyle ''next''))))) = 1"
proof -
  have h: "distinct (map fst (rules (newNextStyle ''next'')))"
    by (simp add: newNextStyle_def)
  show ?thesis
    using css_twice_one_rule [OF h, of id "[(''color'', JStr ''red'')]" id] h
    by (simp add: ruleKey_def)
qed

subsection \<open>Class names of the example descriptions\<close>

lemmas seed_defs =
  seedOf_def getProp_def jsonString_def jsonEscape_def jsonNumber_def dquote_def backslash_def

lemmas hash_defs =
  createHashName_def toString36.simps digitChar_def offsetBasis_def prime_def

lemma seed_color_red:
  "seedOf [(''color'', JStr ''red'')]
     = [CHR ''{'', CHR 0x22] @ ''color'' @ [CHR 0x22, CHR '':'', CHR 0x22] @ ''red'' @ [CHR 0x22, CHR ''}'']"
  by (simp add: seed_defs)

lemma name_color_red: "createHashName (seedOf [(''color'', JStr ''red'')]) = ''3mxjctfib''"
  unfolding seed_color_red by (simp add: hash_defs)

lemma seed_empty: "seedOf [] = ''{}''"
  by (simp add: seed_defs)

lemma name_empty: "createHashName (seedOf []) = ''4wh4ijxo4''"
  unfolding seed_empty by (simp add: hash_defs)

lemma seed_hover_lg:
  "seedOf [(''_hover'', JObj [(''_lg'', JObj [(''opacity'', JNum ''0.5'')])])]
     = [CHR ''{'', CHR 0x22] @ ''_hover'' @ [CHR 0x22, CHR '':'', CHR ''{'', CHR 0x22] @ ''_lg''
       @ [CHR 0x22, CHR '':'', CHR ''{'', CHR 0x22] @ ''opacity'' @ [CHR 0x22] @ '':0.5}}}''"
  by (simp add: seed_defs)

lemma name_hover_lg:
  "createHashName (seedOf [(''_hover'', JObj [(''_lg'', JObj [(''opacity'', JNum ''0.5'')])])])
     = ''3brrgur06''"
  unfolding seed_hover_lg by (simp add: hash_defs)

lemma seed_zIndex:
  "seedOf [(''zIndex'', JNum ''744678'')] = [CHR ''{'', CHR 0x22] @ ''zIndex'' @ [CHR 0x22] @ '':744678}''"
  by (simp add: seed_defs)

lemma hash_zIndex: "hashLoop offsetBasis (seedOf [(''zIndex'', JNum ''744678'')]) = 804839230295"
  unfolding seed_zIndex by (simp add: offsetBasis_def prime_def)

lemma name_zIndex: "createHashName (seedOf [(''zIndex'', JNum ''744678'')]) = ''a9qkhwlz''"
  unfolding createHashName_def hash_zIndex by (simp add: toString36.simps digitChar_def)

lemma css_fresh:
  "rules (snd (css tr d (newNextStyle p)))
     = [(''class:'' @ p @ ''_'' @ createHashName (seedOf d),
         tr (serializeNested (JObj d) (''.'' @ p @ ''_'' @ createHashName (seedOf d)) None))]"
  by (simp add: css_rules css_name) (simp add: newNextStyle_def Map_has_def ruleKey_def)

subsection \<open>Keyframes and font faces\<close>

lemma keyframes_rules:
  "\<exists>text. rules (snd (keyframes tr frames st))
     = (if Map_has (ruleKey ''@keyframes'' (fst (keyframes tr frames st))) (rules st) then rules st
        else rules st @ [(ruleKey ''@keyframes'' (fst (keyframes tr frames st)), text)])"
  by (simp add: keyframes_def Let_def Map_set_absent Map_has_keys)

lemma keyframes_frame:
  "globalStore (snd (keyframes tr frames st)) = globalStore st
   \<and> prefix (snd (keyframes tr frames st)) = prefix st
   \<and> fst (keyframes tr frames st) = prefix st @ ''_'' @ createHashName (seedOf frames)"
  by (simp add: keyframes_def Let_def)

lemma fontFace_rules:
  "\<exists>text. rules (fontFace tr font st)
     = (if Map_has (ruleKey ''@font-face'' (createHashName (seedOf font))) (rules st) then rules st
        else rules st @ [(ruleKey ''@font-face'' (createHashName (seedOf font)), text)])"
  by (simp add: fontFace_def Let_def Map_set_absent Map_has_keys)

lemma fontFace_frame:
  "globalStore (fontFace tr font st) = globalStore st \<and> prefix (fontFace tr font st) = prefix st"
  by (simp add: fontFace_def Let_def)

lemma Map_delete_others:
  "filter (\<lambda>p. fst p \<noteq> k) (Map_delete k m) = filter (\<lambda>p. fst p \<noteq> k) m"
  by (induction m) (auto simp: Map_delete_def)

subsection \<open>What a rule-defining operation leaves unchanged\<close>

text \<open>
  Claim C10. A call of \<open>css\<close>, \<open>keyframes\<close> or \<open>fontFace\<close> leaves the store as it was or
  appends one entry under its own key (\<open>class:\<close>, \<open>@keyframes:\<close> or \<open>@font-face:\<close> followed by
  its identifier), a key the store did not hold; every earlier entry keeps its key, its
  text and its place, and the accumulator is untouched. A call of \<open>global(s, d)\<close> changes
  nothing but the entries of the key \<open>global:s\<close> in the store and in the accumulator: the
  entries of every other key are the same, in the same order.
\<close>

theorem rule_operations_frame:
  "(\<exists>added. rules (snd (css tr d st)) = rules st @ added
      \<and> (added = [] \<or> (\<exists>text. added = [(''class:'' @ fst (css tr d st), text)]
                          \<and> ''class:'' @ fst (css tr d st) \<notin> fst ` set (rules st))))
   \<and> globalStore (snd (css tr d st)) = globalStore st
   \<and> (\<exists>added. rules (snd (keyframes tr frames st)) = rules st @ added
      \<and> (added = [] \<or> (\<exists>text. added = [(''@keyframes:'' @ fst (keyframes tr frames st), text)]
                          \<and> ''@keyframes:'' @ fst (keyframes tr frames st) \<notin> fst ` set (rules st))))
   \<and> globalStore (snd (keyframes tr frames st)) = globalStore st
   \<and> (\<exists>added. rules (fontFace tr font st) = rules st @ added
      \<and> (added = [] \<or> (\<exists>text. added = [(''@font-face:'' @ createHashName (seedOf font), text)]
                          \<and> ''@font-face:'' @ createHashName (seedOf font) \<notin> fst ` set (rules st))))
   \<and> globalStore (fontFace tr font st) = globalStore st
   \<and> filter (\<lambda>p. fst p \<noteq> ''global:'' @ s) (rules (global tr s d st))
       = filter (\<lambda>p. fst p \<noteq> ''global:'' @ s) (rules st)
   \<and> filter (\<lambda>p. fst p \<noteq> ''global:'' @ s) (globalStore (global tr s d st))
       = filter (\<lambda>p. fst p \<noteq> ''global:'' @ s) (globalStore st)"
proof -
  have c: "\<exists>added. rules (snd (css tr d st)) = rules st @ added
      \<and> (added = [] \<or> (\<exists>text. added = [(''class:'' @ fst (css tr d st), text)]
                          \<and> ''class:'' @ fst (css tr d st) \<notin> fst ` set (rules st)))"
    using css_rules [of tr d st] by (auto simp: Map_has_keys ruleKey_def)
  have k: "\<exists>added. rules (snd (keyframes tr frames st)) = rules st @ added
      \<and> (added = [] \<or> (\<exists>text. added = [(''@keyframes:'' @ fst (keyframes tr frames st), text)]
                          \<and> ''@keyframes:'' @ fst (keyframes tr frames st) \<notin> fst ` set (rules st)))"
    using keyframes_rules [of tr frames st] by (auto simp: Map_has_keys ruleKey_def split: if_splits)
  have f: "\<exists>added. rules (fontFace tr font st) = rules st @ added
      \<and> (added = [] \<or> (\<exists>text. added = [(''@font-face:'' @ createHashName (seedOf font), text)]
                          \<and> ''@font-face:'' @ createHashName (seedOf font) \<notin> fst ` set (rules st)))"
    using fontFace_rules [of tr font st] by (auto simp: Map_has_keys ruleKey_def split: if_splits)
  have g: "filter (\<lambda>p. fst p \<noteq> ''global:'' @ s) (rules (global tr s d st))
             = filter (\<lambda>p. fst p \<noteq> ''global:'' @ s) (rules st)"
    using Map_delete_others [of "ruleKey ''global'' s" "rules st"]
    by (simp add: global_rules) (simp add: ruleKey_def)
  have a: "filter (\<lambda>p. fst p \<noteq> ''global:'' @ s) (globalStore (global tr s d st))
             = filter (\<lambda>p. fst p \<noteq> ''global:'' @ s) (globalStore st)"
    using Map_set_others [of "ruleKey ''global'' s" _ "globalStore st"]
    by (simp add: global_globalStore) (simp add: ruleKey_def)
  from c k f g a show ?thesis
    by (simp only: css_frame keyframes_frame fontFace_frame simp_thms)
qed


theorem rule_operations_frame_witness:
  "rules (snd (css id [(''color'', JStr ''red'')] (newNextStyle ''next'')))
     = [(''class:next_3mxjctfib'', ''.next_3mxjctfib{color:red}'')]
   \<and> filter (\<lambda>p. fst p \<noteq> ''global:body'')
        (rules (global id ''body'' [(''margin'', JNum ''0'')]
                 (snd (css id [(''color'', JStr ''red'')] (newNextStyle ''next'')))))
       = [(''class:next_3mxjctfib'', ''.next_3mxjctfib{color:red}'')]"
proof -
  have before: "rules (snd (css id [(''color'', JStr ''red'')] (newNextStyle ''next'')))
                  = [(''class:next_3mxjctfib'', ''.next_3mxjctfib{color:red}'')]"
    by (simp add: css_fresh name_color_red compile_defs)
  show ?thesis
    using rule_operations_frame [of id "[(''margin'', JNum ''0'')]"
        "snd (css id [(''color'', JStr ''red'')] (newNextStyle ''next''))" _ _ "''body''"]
    by (simp add: before)
qed

subsection \<open>The empty description\<close>

text \<open>
  Claim C9. \<open>css({})\<close> on a new facade returns a class name and stores one rule whose raw
  text is empty. Where the text transform maps the empty text to the empty text, the
  stored text is empty and \<open>toTextCss()\<close> returns the text of one newline, not \<open>null\<close>.
  \<open>null\<close> is the export of a facade without rules only: after any call of \<open>css\<close> the
  export is a text.
\<close>

theorem css_empty_description:
  assumes "tr [] = []"
  shows "fst (css tr [] (newNextStyle p)) = p @ ''_4wh4ijxo4''
         \<and> serializeNested (JObj []) (''.'' @ p @ ''_4wh4ijxo4'') None = []
         \<and> rules (snd (css tr [] (newNextStyle p))) = [(''class:'' @ p @ ''_4wh4ijxo4'', [])]
         \<and> toTextCss (snd (css tr [] (newNextStyle p))) = Some [newline]
         \<and> toTextCss (newNextStyle p) = None
         \<and> toTextCss (snd (css tr d st)) \<noteq> None"
proof -
  have name: "fst (css tr [] (newNextStyle p)) = p @ ''_4wh4ijxo4''"
    by (simp add: css_name name_empty newNextStyle_def)
  have raw: "\<And>sel. serializeNested (JObj []) sel None = []"
    by (simp add: compile_defs)
  have stored: "rules (snd (css tr [] (newNextStyle p))) = [(''class:'' @ p @ ''_4wh4ijxo4'', [])]"
    using assms by (simp add: css_fresh name_empty raw)
  have export: "toTextCss (snd (css tr [] (newNextStyle p))) = Some [newline]"
    by (simp add: toTextCss_lines stored)
  have none: "toTextCss (newNextStyle p) = None"
    by (simp add: toTextCss_def newNextStyle_def)
  have some: "toTextCss (snd (css tr d st)) \<noteq> None"
    by (auto simp: toTextCss_lines css_rules Map_has_keys)
  from name raw stored export none some show ?thesis by simp
qed

theorem css_empty_description_witness:
  "id [] = ([] :: string)
   \<and> rules (snd (css id [] (newNextStyle ''next''))) = [(''class:next_4wh4ijxo4'', [])]
   \<and> toTextCss (snd (css id [] (newNextStyle ''next''))) = Some [newline]"
proof -
  have h: "id [] = ([] :: string)" by simp
  show ?thesis
    using css_empty_description [of id "''next''", OF h] by simp
qed

subsection \<open>A breakpoint inside a pseudo state\<close>

text \<open>
  Claim C5. A breakpoint nested in a pseudo state compiles to one rule: for
  \<open>{_hover: {_lg: {opacity: 0.5}}}\<close> and the selector \<open>.c\<close> of a class \<open>c\<close> the compiled text
  is \<open>@media (min-width:1024px){.c:hover{opacity:0.5}}\<close>, the media condition being the
  merge of the absent outer condition with the condition of \<open>_lg\<close>; \<open>css\<close> on a new facade
  stores the transform of this text for its class name.
\<close>

theorem hover_lg_one_rule:
  "serializeNested (JObj [(''_hover'', JObj [(''_lg'', JObj [(''opacity'', JNum ''0.5'')])])])
     (''.'' @ c) None
     = ''@media (min-width:1024px){.'' @ c @ '':hover{opacity:0.5}}''
   \<and> mergeMedia None (map_of MEDIA_MAP ''_lg'') = Some ''(min-width:1024px)''
   \<and> fst (css tr [(''_hover'', JObj [(''_lg'', JObj [(''opacity'', JNum ''0.5'')])])] (newNextStyle p))
       = p @ ''_3brrgur06''
   \<and> rules (snd (css tr [(''_hover'', JObj [(''_lg'', JObj [(''opacity'', JNum ''0.5'')])])]
                  (newNextStyle p)))
       = [(''class:'' @ p @ ''_3brrgur06'',
           tr (''@media (min-width:1024px){.'' @ p @ ''_3brrgur06'' @ '':hover{opacity:0.5}}''))]"
proof -
  have compiled: "\<And>c. serializeNested
        (JObj [(''_hover'', JObj [(''_lg'', JObj [(''opacity'', JNum ''0.5'')])])]) (''.'' @ c) None
     = ''@media (min-width:1024px){.'' @ c @ '':hover{opacity:0.5}}''"
    by (simp add: compile_defs)
  have merged: "mergeMedia None (map_of MEDIA_MAP ''_lg'') = Some ''(min-width:1024px)''"
    by (simp add: MEDIA_MAP_def)
  have name: "fst (css tr [(''_hover'', JObj [(''_lg'', JObj [(''opacity'', JNum ''0.5'')])])]
                     (newNextStyle p)) = p @ ''_3brrgur06''"
    by (simp add: css_name name_hover_lg newNextStyle_def)
  have stored: "rules (snd (css tr [(''_hover'', JObj [(''_lg'', JObj [(''opacity'', JNum ''0.5'')])])]
                  (newNextStyle p)))
       = [(''class:'' @ p @ ''_3brrgur06'',
           tr (''@media (min-width:1024px){.'' @ p @ ''_3brrgur06'' @ '':hover{opacity:0.5}}''))]"
    using compiled [of "p @ ''_3brrgur06''"] by (simp add: css_fresh name_hover_lg)
  from compiled [of c] merged name stored show ?thesis by blast
qed

theorem hover_lg_one_rule_witness:
  "rules (snd (css id [(''_hover'', JObj [(''_lg'', JObj [(''opacity'', JNum ''0.5'')])])]
                (newNextStyle ''next'')))
     = [(''class:next_3brrgur06'', ''@media (min-width:1024px){.next_3brrgur06:hover{opacity:0.5}}'')]"
  using hover_lg_one_rule [of "''next''" id "''next''"] by simp

subsection \<open>The relation builder\<close>



subsection \<open>Declarations\<close>

lemma join_contains:
  "x \<in> set xs \<Longrightarrow> \<exists>pre post. join sep xs = pre @ x @ post"
proof (induction sep xs rule: join.induct)
  case (1 sep)
  then show ?case by simp
next
  case (2 sep y)
  then have "join sep [y] = [] @ x @ []" by simp
  then show ?case by blast
next
  case (3 sep y z zs)
  show ?case
  proof (cases "x = y")
    case True
    then have "join sep (y # z # zs) = [] @ x @ (sep @ join sep (z # zs))" by simp
    then show ?thesis by blast
  next
    case False
    with 3 obtain pre post where "join sep (z # zs) = pre @ x @ post" by auto
    then have "join sep (y # z # zs) = (y @ sep @ pre) @ x @ post" by simp
    then show ?thesis by blast
  qed
qed

lemma declarationsOf_member:
  assumes "map_of style key = Some value"
    and "\<not> startsWith key ''_''"
    and "\<not> isNullish value" and "\<not> typeofObject value"
  shows "toKebabCase key @ '':'' @ toStr value \<in> set (declarationsOf (JObj style))"
proof -
  have "key \<in> set (map fst style)"
    using assms(1) by (metis map_of_eq_None_iff option.distinct(1) list.set_map)
  moreover have "getProp (JObj style) key = value"
    using assms(1) by (simp add: getProp_def)
  ultimately show ?thesis
    using assms(2-4) by (auto simp: declarationsOf_def ownKeys_def Let_def)
qed

lemma concat_skip_keys:
  fixes f :: "string \<Rightarrow> string list" and xs :: "(string \<times> jsvalue) list"
  assumes "\<And>k. startsWith k ''_'' \<Longrightarrow> f k = []"
  shows "concat (map f (map fst (filter (\<lambda>p. \<not> startsWith (fst p) ''_'') xs)))
           = concat (map f (map fst xs))"
  using assms by (induction xs) auto

lemma declarationsOf_underscore:
  "declarationsOf (JObj (filter (\<lambda>p. \<not> startsWith (fst p) ''_'') style))
     = declarationsOf (JObj style)"
proof -
  let ?keep = "\<lambda>p :: string \<times> jsvalue. \<not> startsWith (fst p) ''_''"
  have lookup: "\<And>k. \<not> startsWith k ''_'' \<Longrightarrow> map_of (filter ?keep style) k = map_of style k"
  proof -
    fix k :: string
    show "\<not> startsWith k ''_'' \<Longrightarrow> map_of (filter ?keep style) k = map_of style k"
      by (induction style) auto
  qed
  let ?decl = "\<lambda>obj key. let value = getProp (JObj obj) key in
                    if isNullish value \<or> typeofObject value \<or> startsWith key ''_'' then []
                    else [toKebabCase key @ '':'' @ toStr value]"
  have same: "\<And>k. ?decl (filter ?keep style) k = ?decl style k"
  proof -
    fix k :: string
    show "?decl (filter ?keep style) k = ?decl style k"
    proof (cases "startsWith k ''_''")
      case True
      then show ?thesis by (simp add: Let_def)
    next
      case False
      then show ?thesis by (simp add: getProp_def Let_def lookup)
    qed
  qed
  have skip: "\<And>k. startsWith k ''_'' \<Longrightarrow> ?decl style k = []"
    by (simp add: Let_def)
  have "concat (map (?decl style) (map fst (filter ?keep style)))
          = concat (map (?decl style) (map fst style))"
    using skip by (intro concat_skip_keys) simp
  then show ?thesis
    by (simp add: declarationsOf_def ownKeys_def same)
qed

lemma wrapRule_contains:
  assumes "x \<in> set declarations"
  shows "\<exists>pre post. wrapRule selector media declarations = pre @ x @ post"
proof -
  obtain a b where j: "join '';'' declarations = a @ x @ b"
    using join_contains [OF assms] by blast
  have nonempty: "declarations \<noteq> []" using assms by auto
  let ?rule = "selector @ ''{'' @ join '';'' declarations @ ''}''"
  have plain: "?rule = (selector @ ''{'' @ a) @ x @ (b @ ''}'')"
    by (simp add: j)
  show ?thesis
  proof (cases "media = None \<or> media = Some []")
    case True
    then have "wrapRule selector media declarations = ?rule"
      using nonempty by (auto simp: wrapRule_def Let_def)
    with plain show ?thesis by metis
  next
    case False
    then obtain m where m: "media = Some m" "m \<noteq> []" by auto
    have "wrapRule selector media declarations
            = (''@media '' @ m @ ''{'' @ selector @ ''{'' @ a) @ x @ (b @ ''}'' @ ''}'')"
      using nonempty m by (simp add: wrapRule_def Let_def j)
    then show ?thesis by metis
  qed
qed

text \<open>
  Claim C6, as amended. A key of a style description that does not start with an
  underscore and whose value is a string or a number is compiled to the declaration
  \<open>hyphenated-key:value\<close>, which the rule text contains; the custom-property keys (\<open>--name\<close>)
  are among them. No key that starts with an underscore yields a declaration, whether it
  is one of the eight reserved keys or not: the declarations are those of the
  description without its underscore keys.
\<close>

theorem scalar_key_declared:
  assumes "map_of style key = Some value"
    and "\<not> startsWith key ''_''"
    and "value = JStr t \<or> value = JNum t"
  shows "toKebabCase key @ '':'' @ t \<in> set (declarationsOf (JObj style))
         \<and> (\<exists>pre post. serializeNested (JObj style) selector media
                          = pre @ (toKebabCase key @ '':'' @ t) @ post)
         \<and> declarationsOf (JObj (filter (\<lambda>p. \<not> startsWith (fst p) ''_'') style))
             = declarationsOf (JObj style)"
proof -
  have scalar: "\<not> isNullish value" "\<not> typeofObject value" "toStr value = t"
    using assms(3) by auto
  have member: "toKebabCase key @ '':'' @ t \<in> set (declarationsOf (JObj style))"
    using declarationsOf_member [OF assms(1) assms(2) scalar(1) scalar(2)] scalar(3) by simp
  obtain pre post where
    w: "wrapRule selector media (declarationsOf (JObj style))
          = pre @ (toKebabCase key @ '':'' @ t) @ post"
    using wrapRule_contains [OF member] by blast
  have "\<exists>rest. serializeNested (JObj style) selector media
      = wrapRule selector media (declarationsOf (JObj style)) @ rest"
    by (subst serializeNested.simps) blast
  then obtain rest where "serializeNested (JObj style) selector media
      = wrapRule selector media (declarationsOf (JObj style)) @ rest"
    by blast
  then have "serializeNested (JObj style) selector media
      = pre @ (toKebabCase key @ '':'' @ t) @ (post @ rest)"
    by (simp add: w)
  then have contains: "\<exists>pre post. serializeNested (JObj style) selector media
                          = pre @ (toKebabCase key @ '':'' @ t) @ post"
    by blast
  from member contains declarationsOf_underscore [of style] show ?thesis by blast
qed

theorem scalar_key_declared_witness:
  "map_of [(''backgroundColor'', JStr ''black''), (''_foo'', JStr ''bar'')] ''backgroundColor''
     = Some (JStr ''black'')
   \<and> \<not> startsWith ''backgroundColor'' ''_''
   \<and> ''background-color:black''
       \<in> set (declarationsOf (JObj [(''backgroundColor'', JStr ''black''), (''_foo'', JStr ''bar'')]))
   \<and> declarationsOf (JObj [(''backgroundColor'', JStr ''black'')])
       = declarationsOf (JObj [(''backgroundColor'', JStr ''black''), (''_foo'', JStr ''bar'')])"
proof -
  have h1: "map_of [(''backgroundColor'', JStr ''black''), (''_foo'', JStr ''bar'')] ''backgroundColor''
              = Some (JStr ''black'')" by simp
  have h2: "\<not> startsWith ''backgroundColor'' ''_''" by (simp add: startsWith_def)
  have h3: "JStr ''black'' = JStr ''black'' \<or> JStr ''black'' = JNum ''black''" by simp
  have kebab: "toKebabCase ''backgroundColor'' = ''background-color''"
    by (simp add: toKebabCase_def isUpper_def toLowerCase_def)
  show ?thesis
    using scalar_key_declared [OF h1 h2 h3] h1 h2 by (simp add: kebab startsWith_def)
qed

text \<open>
  Claim C6 as stated fails on an underscore key that is not reserved: for
  \<open>{_foo: "bar"}\<close> no declaration is made and the compiled text is empty.
\<close>

theorem underscore_key_declared_counterexample:
  "declarationsOf (JObj [(''_foo'', JStr ''bar'')]) = []
   \<and> serializeNested (JObj [(''_foo'', JStr ''bar'')]) ''.c'' None = []"
  by (simp add: compile_defs)

subsection \<open>The hash token\<close>

lemma mask64: "(x :: nat) AND 0xffffffffffffffff < 2 ^ 64"
proof -
  have "(0xffffffffffffffff :: nat) = mask 64" by (simp add: mask_eq_exp_minus_1)
  then have "x AND 0xffffffffffffffff = take_bit 64 x" by (simp add: take_bit_eq_mask)
  then show ?thesis by (simp only: take_bit_nat_less_exp)
qed

lemma hashLoop_bound: "hash < 2 ^ 64 \<Longrightarrow> hashLoop hash seed < 2 ^ 64"
proof (induction seed arbitrary: hash)
  case Nil
  then show ?case by simp
next
  case (Cons c cs)
  have "hashLoop hash (c # cs)
          = hashLoop (((hash XOR of_char c) * prime) AND 0xffffffffffffffff) cs" by simp
  also have "\<dots> < 2 ^ 64" by (rule Cons.IH) (rule mask64)
  finally show ?case .
qed

lemma length_toString36: "0 < k \<Longrightarrow> length (toString36 n) \<le> k \<longleftrightarrow> n < 36 ^ k"
proof (induction n arbitrary: k rule: toString36.induct)
  case (1 n)
  show ?case
  proof (cases "n < 36")
    case True
    have "(36 :: nat) ^ 1 \<le> 36 ^ k" using "1.prems" by (intro power_increasing) simp_all
    then have "n < 36 ^ k" using True by simp
    moreover have "length (toString36 n) = 1" using True by (subst toString36.simps) simp
    ultimately show ?thesis using "1.prems" by simp
  next
    case False
    have len: "length (toString36 n) = length (toString36 (n div 36)) + 1"
      using False by (subst toString36.simps) simp
    have pos: "0 < length (toString36 (n div 36))"
      by (subst toString36.simps) simp
    show ?thesis
    proof (cases "k = 1")
      case True
      then show ?thesis using False len pos by simp
    next
      case k: False
      then obtain j where j: "k = Suc j" "0 < j" using "1.prems" by (cases k) auto
      have "length (toString36 (n div 36)) \<le> j \<longleftrightarrow> n div 36 < 36 ^ j"
        using "1.IH" [OF False j(2)] .
      also have "\<dots> \<longleftrightarrow> n < 36 ^ j * 36"
        by (simp add: div_less_iff_less_mult)
      finally show ?thesis by (simp add: len j(1) mult.commute)
    qed
  qed
qed

lemma digitChar_base36: "d < 36 \<Longrightarrow> digitChar d \<in> set ''0123456789abcdefghijklmnopqrstuvwxyz''"
  unfolding digitChar_def by (rule nth_mem) simp

lemma set_toString36: "set (toString36 n) \<subseteq> set ''0123456789abcdefghijklmnopqrstuvwxyz''"
proof (induction n rule: toString36.induct)
  case (1 n)
  show ?case
  proof (cases "n < 36")
    case True
    then show ?thesis
      using digitChar_base36 [of n] by (subst toString36.simps) simp
  next
    case False
    have "n mod 36 < 36" by simp
    then show ?thesis
      using False "1.IH" digitChar_base36 [of "n mod 36"] by (subst toString36.simps) simp
  qed
qed

text \<open>
  Claim C7, as amended. \<open>css\<close> returns \<open>prefix_token\<close>, where the token is the first nine
  characters of the base-36 text of the final hash value, a value below \<open>2^64\<close>. The token
  consists of base-36 digits and has between one and nine of them; it has nine exactly
  when the hash value is at least \<open>36^8\<close>, and is the whole, shorter text otherwise.
\<close>

theorem css_class_name_token:
  "fst (css tr d st) = prefix st @ ''_'' @ createHashName (seedOf d)
   \<and> createHashName (seedOf d) = take 9 (toString36 (hashLoop offsetBasis (seedOf d)))
   \<and> hashLoop offsetBasis (seedOf d) < 2 ^ 64
   \<and> set (createHashName (seedOf d)) \<subseteq> set ''0123456789abcdefghijklmnopqrstuvwxyz''
   \<and> 1 \<le> length (createHashName (seedOf d))
   \<and> length (createHashName (seedOf d)) \<le> 9
   \<and> (length (createHashName (seedOf d)) = 9 \<longleftrightarrow> 36 ^ 8 \<le> hashLoop offsetBasis (seedOf d))"
proof -
  let ?h = "hashLoop offsetBasis (seedOf d)"
  have bound: "?h < 2 ^ 64"
    by (rule hashLoop_bound) (simp add: offsetBasis_def)
  have digits: "set (createHashName (seedOf d)) \<subseteq> set ''0123456789abcdefghijklmnopqrstuvwxyz''"
    unfolding createHashName_def using set_toString36 [of ?h] set_take_subset [of 9 "toString36 ?h"]
    by (rule order_trans [rotated])
  have pos: "1 \<le> length (toString36 ?h)"
    by (subst toString36.simps) simp
  have eight: "length (toString36 ?h) \<le> 8 \<longleftrightarrow> ?h < 36 ^ 8"
    by (rule length_toString36) simp
  have len: "length (createHashName (seedOf d)) = min (length (toString36 ?h)) 9"
    by (simp add: createHashName_def)
  have nine: "length (createHashName (seedOf d)) = 9 \<longleftrightarrow> 36 ^ 8 \<le> ?h"
    using eight unfolding len by linarith
  show ?thesis
    using bound digits pos nine by (simp add: css_name len createHashName_def)
qed

theorem css_class_name_token_witness:
  "fst (css id [(''color'', JStr ''red'')] (newNextStyle ''next'')) = ''next_3mxjctfib''
   \<and> length (createHashName (seedOf [(''color'', JStr ''red'')])) = 9"
proof -
  have name: "fst (css id [(''color'', JStr ''red'')] (newNextStyle ''next''))
                = prefix (newNextStyle ''next'') @ ''_'' @ createHashName (seedOf [(''color'', JStr ''red'')])"
    using css_class_name_token [of id "[(''color'', JStr ''red'')]" "newNextStyle ''next''"]
    by (rule conjunct1)
  show ?thesis
    unfolding name by (simp add: name_color_red newNextStyle_def)
qed

text \<open>
  Claim C7 as stated fails where the hash value is below \<open>36^8\<close>: the description
  \<open>{zIndex: 744678}\<close> has the hash value 804839230295 and the token \<open>a9qkhwlz\<close> of eight
  characters.
\<close>

theorem css_token_nine_characters_counterexample:
  "fst (css id [(''zIndex'', JNum ''744678'')] (newNextStyle ''next'')) = ''next_a9qkhwlz''
   \<and> hashLoop offsetBasis (seedOf [(''zIndex'', JNum ''744678'')]) = 804839230295
   \<and> length (createHashName (seedOf [(''zIndex'', JNum ''744678'')])) = 8"
  by (simp add: css_name name_zIndex hash_zIndex newNextStyle_def)

subsection \<open>The order of the keys\<close>

lemma stableStringify_JObj: "stableStringify (JObj kvs) \<noteq> None"
  by simp

lemma sorted_keys_same:
  fixes xs ys :: "string list"
  assumes "distinct xs" "distinct ys" "set xs = set ys"
  shows "sort xs = sort ys"
proof (rule sorted_distinct_set_unique)
  show "sorted (sort xs)" "sorted (sort ys)" by simp_all
  show "distinct (sort xs)" "distinct (sort ys)" using assms by simp_all
  show "set (sort xs) = set (sort ys)" using assms by simp
qed

lemma sameStructure_stableStringify:
  "sameStructure v w \<Longrightarrow> stableStringify v = stableStringify w"
proof (induction rule: sameStructure.induct)
  case (same_arr xs ys)
  then have "map (\<lambda>x. case stableStringify x of None \<Rightarrow> [] | Some t \<Rightarrow> t) xs
               = map (\<lambda>x. case stableStringify x of None \<Rightarrow> [] | Some t \<Rightarrow> t) ys"
    by (induction xs ys rule: list_all2_induct) simp_all
  then show ?case by simp
next
  case (same_obj a b)
  have keys: "sort (map fst a) = sort (map fst b)"
    using same_obj.hyps by (intro sorted_keys_same)
  let ?entry = "\<lambda>obj k. [dquote] @ k @ [dquote] @ '':'' @
                (case stableStringify (getProp (JObj obj) k) of None \<Rightarrow> ''undefined'' | Some t \<Rightarrow> t)"
  have entries: "map (?entry a) (sort (map fst a)) = map (?entry b) (sort (map fst a))"
    using same_obj.IH by (intro map_cong) auto
  then have entries': "map (?entry a) (sort (map fst b)) = map (?entry b) (sort (map fst b))"
    by (simp only: keys)
  have "stableStringify (JObj a)
          = Some (''{'' @ join '','' (map (?entry a) (sort (map fst a))) @ ''}'')"
    by simp
  also have "\<dots> = Some (''{'' @ join '','' (map (?entry b) (sort (map fst b))) @ ''}'')"
    by (simp only: keys entries')
  also have "\<dots> = stableStringify (JObj b)"
    by simp
  finally show ?case .
qed simp_all

lemma seed_a_b:
  "seedOf [(''a'', JNum ''1''), (''b'', JNum ''2'')]
     = [CHR ''{'', CHR 0x22, CHR ''a'', CHR 0x22] @ '':1,'' @ [CHR 0x22, CHR ''b'', CHR 0x22] @ '':2}''"
  by (simp add: seed_defs)

lemma name_a_b: "createHashName (seedOf [(''a'', JNum ''1''), (''b'', JNum ''2'')]) = ''2g3inl2c9''"
  unfolding seed_a_b by (simp add: hash_defs)

text \<open>
  Claim C4. Two style descriptions that are structurally equal, whatever the order in
  which their keys, and the keys of the objects nested in them, were inserted, have the
  same seed, so \<open>css\<close> returns the same class name for both on facades of the same prefix:
  \<open>stableStringify\<close> lists the keys of an object sorted. The elements of an array stay in
  their order: the arrays \<open>[1, 2]\<close> and \<open>[2, 1]\<close> have different texts.
\<close>

theorem css_key_order_invariant:
  assumes "sameStructure (JObj d1) (JObj d2)"
    and "prefix st1 = prefix st2"
  shows "seedOf d1 = seedOf d2
         \<and> fst (css tr1 d1 st1) = fst (css tr2 d2 st2)
         \<and> stableStringify (JArr [JNum ''1'', JNum ''2'']) = Some ''[1,2]''
         \<and> stableStringify (JArr [JNum ''2'', JNum ''1'']) = Some ''[2,1]''"
proof -
  have "stableStringify (JObj d1) = stableStringify (JObj d2)"
    using assms(1) by (rule sameStructure_stableStringify)
  then have seed: "seedOf d1 = seedOf d2"
    by (simp only: seedOf_def)
  have arrays: "stableStringify (JArr [JNum ''1'', JNum ''2'']) = Some ''[1,2]''"
    "stableStringify (JArr [JNum ''2'', JNum ''1'']) = Some ''[2,1]''"
    by (simp_all add: jsonNumber_def)
  show ?thesis
    using arrays by (simp add: css_name seed assms(2))
qed

theorem css_key_order_invariant_witness:
  "sameStructure (JObj [(''a'', JNum ''1''), (''b'', JNum ''2'')])
                 (JObj [(''b'', JNum ''2''), (''a'', JNum ''1'')])
   \<and> fst (css id [(''a'', JNum ''1''), (''b'', JNum ''2'')] (newNextStyle ''next'')) = ''next_2g3inl2c9''
   \<and> fst (css id [(''b'', JNum ''2''), (''a'', JNum ''1'')] (newNextStyle ''next'')) = ''next_2g3inl2c9''"
proof -
  have h: "sameStructure (JObj [(''a'', JNum ''1''), (''b'', JNum ''2'')])
                         (JObj [(''b'', JNum ''2''), (''a'', JNum ''1'')])"
    by (rule sameStructure.same_obj) (auto simp: getProp_def intro: sameStructure.intros)
  have first: "fst (css id [(''a'', JNum ''1''), (''b'', JNum ''2'')] (newNextStyle ''next''))
                 = ''next_2g3inl2c9''"
    by (simp add: css_name name_a_b newNextStyle_def)
  have "fst (css id [(''a'', JNum ''1''), (''b'', JNum ''2'')] (newNextStyle ''next''))
          = fst (css id [(''b'', JNum ''2''), (''a'', JNum ''1'')] (newNextStyle ''next''))"
    using css_key_order_invariant [OF h, of "newNextStyle ''next''" "newNextStyle ''next''" id id]
    by simp
  with h first show ?thesis by simp
qed

end
